theory Spec2Isabelle
  imports Main "HOL-Library.Sublist" "HOL-Library.Multiset"
begin

section \<open>Python strings\<close>





text \<open>\<open>sep.join(xs)\<close>.\<close>

fun join :: "string \<Rightarrow> string list \<Rightarrow> string" where
  "join sep [] = []"
| "join sep [x] = x"
| "join sep (x # y # ys) = x @ sep @ join sep (y # ys)"




text \<open>
  \<open>re.finditer(re.escape(quote), text)\<close>, from position \<open>pos\<close>: the pattern is the escaped
  quote, which matches the quote's characters literally and nothing else. The matches are
  found from the left and do not overlap: after a match the search goes on at its end
  (one position further after an empty match). Each match gives its span \<open>(start, end)\<close>.
\<close>

function finditer :: "string \<Rightarrow> string \<Rightarrow> nat \<Rightarrow> (nat \<times> nat) list" where
  "finditer quote text pos =
     (if length text < pos then []
      else if prefix quote (drop pos text)
        then (pos, pos + length quote) #
             finditer quote text (if quote = [] then pos + 1 else pos + length quote)
      else finditer quote text (pos + 1))"
  by pat_completeness auto
termination
  by (relation "measure (\<lambda>(quote, text, pos). Suc (length text) - pos)")
    (auto simp: neq_Nil_conv)

declare finditer.simps [simp del]

text \<open>The slice \<open>s[a:b]\<close> for \<open>0 \<le> a\<close> and \<open>0 \<le> b\<close>.\<close>

definition slice :: "string \<Rightarrow> nat \<times> nat \<Rightarrow> string" where
  "slice s span = drop (fst span) (take (snd span) s)"

section \<open>Python values and exceptions\<close>

text \<open>
  A value of a type the model does not fix in advance: an entry of a validation context.
\<close>

datatype pyval = PyNone | PyStr string | PyInt int

text \<open>
  The exceptions the modelled code raises. \<open>ValidationError field msg\<close> is the schema
  library's error for one field.
\<close>

datatype py_error =
    AttributeError
  | TypeError
  | AssertionError
  | NameError string
  | ValueError string
  | ValidationError string string

text \<open>Running a list of computations in order, stopping at the first that raises.\<close>

fun sequence :: "(py_error + 'a) list \<Rightarrow> py_error + 'a list" where
  "sequence [] = Inr []"
| "sequence (x # xs) =
     (case x of
        Inl e \<Rightarrow> Inl e
      | Inr v \<Rightarrow> (case sequence xs of Inl e \<Rightarrow> Inl e | Inr vs \<Rightarrow> Inr (v # vs)))"

section \<open>Exact citations (04_exact_citations)\<close>

record Fact =
  fact :: string
  substring_quote :: "string list"

record QuestionAnswer =
  question :: string
  answer :: "Fact list"

text \<open>
  The validation context \<open>info.context\<close> is \<open>None\<close> when the caller gave none, and
  otherwise a dictionary, here the list of its items. \<open>context_get d k\<close> is
  \<open>d.get(k, None)\<close>.
\<close>

type_synonym validation_context = "(string \<times> pyval) list option"

definition context_get :: "(string \<times> pyval) list \<Rightarrow> string \<Rightarrow> pyval" where
  "context_get d k = (case map_of d k of None \<Rightarrow> PyNone | Some v \<Rightarrow> v)"

text \<open>
  \<open>Fact._get_span\<close>: the spans of the matches of the escaped quote. \<open>re.finditer\<close> raises
  \<open>TypeError\<close> when the searched value is not a string.
\<close>

definition get_span :: "string \<Rightarrow> pyval \<Rightarrow> py_error + (nat \<times> nat) list" where
  "get_span quote text_chunks =
     (case text_chunks of PyStr s \<Rightarrow> Inr (finditer quote s 0) | _ \<Rightarrow> Inl TypeError)"

text \<open>\<open>Fact.get_spans\<close>: the spans of every claimed quote, in the order of the quotes.\<close>

fun get_spans :: "string list \<Rightarrow> pyval \<Rightarrow> py_error + (nat \<times> nat) list" where
  "get_spans [] text_chunks = Inr []"
| "get_spans (quote # rest) text_chunks =
     (case get_span quote text_chunks of
        Inl e \<Rightarrow> Inl e
      | Inr spans \<Rightarrow>
          (case get_spans rest text_chunks of
             Inl e \<Rightarrow> Inl e
           | Inr later \<Rightarrow> Inr (spans @ later)))"

text \<open>\<open>text_chunks[span[0] : span[1]]\<close>; a value that is not a string cannot be sliced.\<close>

definition slice_val :: "pyval \<Rightarrow> nat \<times> nat \<Rightarrow> py_error + string" where
  "slice_val text_chunks span =
     (case text_chunks of PyStr s \<Rightarrow> Inr (slice s span) | _ \<Rightarrow> Inl TypeError)"

text \<open>
  \<open>Fact.validate_sources\<close>, the validator that runs after the fields of a \<open>Fact\<close> are
  set. \<open>info.context.get\<close> raises \<open>AttributeError\<close> when there is no context.
\<close>

definition Fact_validate_sources :: "validation_context \<Rightarrow> Fact \<Rightarrow> py_error + Fact" where
  "Fact_validate_sources info_context self =
     (case info_context of
        None \<Rightarrow> Inl AttributeError
      | Some d \<Rightarrow>
          (let text_chunks = context_get d ''text_chunk'' in
           case get_spans (substring_quote self) text_chunks of
             Inl e \<Rightarrow> Inl e
           | Inr spans \<Rightarrow>
               (case sequence (map (slice_val text_chunks) spans) of
                  Inl e \<Rightarrow> Inl e
                | Inr quotes \<Rightarrow> Inr (self\<lparr>substring_quote := quotes\<rparr>))))"

text \<open>\<open>QuestionAnswer.validate_sources\<close>: facts left without a quote are dropped.\<close>

definition QuestionAnswer_validate_sources :: "QuestionAnswer \<Rightarrow> QuestionAnswer" where
  "QuestionAnswer_validate_sources self =
     self\<lparr>answer := filter (\<lambda>fact. length (substring_quote fact) > 0) (answer self)\<rparr>"

text \<open>
  Validating a \<open>QuestionAnswer\<close> under a context, as \<open>ask_ai\<close> has the client do: every
  \<open>Fact\<close> of the answer is validated in list order, then the validator of the
  \<open>QuestionAnswer\<close> runs on the result.
\<close>

definition QuestionAnswer_validate :: "validation_context \<Rightarrow> QuestionAnswer \<Rightarrow> py_error + QuestionAnswer" where
  "QuestionAnswer_validate info_context raw =
     (case sequence (map (Fact_validate_sources info_context) (answer raw)) of
        Inl e \<Rightarrow> Inl e
      | Inr facts \<Rightarrow> Inr (QuestionAnswer_validate_sources (raw\<lparr>answer := facts\<rparr>)))"

section \<open>PII scrubbing (09_pii)\<close>







section \<open>Document segmentation (17_document_segmentation)\<close>









section \<open>Dependency graphs (08_entity_resolution, action items)\<close>





subsection \<open>Entities\<close>

record Property =
  key :: string
  prop_value :: string
  resolved_absolute_value :: string





subsection \<open>Action items\<close>

datatype PriorityEnum = high | medium | low






section \<open>Knowledge graphs (06_knowledge_graph)\<close>

text \<open>
  \<open>Node\<close> and \<open>Edge\<close> compare field by field and hash the tuple of their field values,
  so equal records are equal members of a set: the equality of the records below.
\<close>

record Node =
  node_id :: int
  node_label :: string
  node_color :: string

record Edge =
  source :: int
  target :: int
  edge_label :: string
  edge_color :: string

record KnowledgeGraph =
  nodes :: "Node list"
  edges :: "Edge list"

text \<open>
  \<open>set(xs)\<close> adds the members of \<open>xs\<close> one by one, an equal member being added once.
  \<open>list(...)\<close> of a set gives its members in the order of the hash table, which the
  language leaves open: the parameter \<open>order\<close> of \<open>list_of_set\<close> is that rearrangement.
\<close>

definition set_add :: "'a \<Rightarrow> 'a list \<Rightarrow> 'a list" where
  "set_add x members = (if x \<in> set members then members else members @ [x])"

definition py_set :: "'a list \<Rightarrow> 'a list" where
  "py_set xs = fold set_add xs []"

definition list_of_set :: "('a list \<Rightarrow> 'a list) \<Rightarrow> 'a list \<Rightarrow> 'a list" where
  "list_of_set order members = order members"

definition update ::
  "(Node list \<Rightarrow> Node list) \<Rightarrow> (Edge list \<Rightarrow> Edge list) \<Rightarrow>
   KnowledgeGraph \<Rightarrow> KnowledgeGraph \<Rightarrow> KnowledgeGraph" where
  "update node_order edge_order self other =
     \<lparr>nodes = list_of_set node_order (py_set (nodes self @ nodes other)),
      edges = list_of_set edge_order (py_set (edges self @ edges other))\<rparr>"

text \<open>A rearrangement keeps every member, each as often as it was there.\<close>

definition rearranges :: "('a list \<Rightarrow> 'a list) \<Rightarrow> bool" where
  "rearranges order = (\<forall>xs. mset (order xs) = mset xs)"

section \<open>Moderation (11_moderation)\<close>

record moderation =
  flagged :: bool
  categories :: "(string \<times> bool) list"

text \<open>
  Modelled from the spec: \<open>openai_moderation\<close>, the validator that \<open>Response\<close> attaches
  to its field, is a function of the schema-and-client library and is not among the
  sources; the moderation endpoint it asks is the parameter \<open>client\<close>. A message the
  check flags raises a value error that names the message and the flagged categories, as
  the output cells of the notebook show; any other message is returned as it is.
\<close>

definition openai_moderation :: "(string \<Rightarrow> moderation) \<Rightarrow> string \<Rightarrow> py_error + string" where
  "openai_moderation client v =
     (let out = client v
      in if flagged out
         then Inl (ValueError (''`'' @ v @ ''` was flagged for '' @
                     join '', '' (map fst (filter snd (categories out)))))
         else Inr v)"

record Response =
  message :: string

text \<open>
  \<open>Response(message=v)\<close> for a string \<open>v\<close>: the validator runs on the field, and the
  schema library turns the value error it raises into its validation error for the field.
\<close>

definition Response_init :: "(string \<Rightarrow> moderation) \<Rightarrow> string \<Rightarrow> py_error + Response" where
  "Response_init client v =
     (case openai_moderation client v of
        Inl (ValueError msg) \<Rightarrow> Inl (ValidationError ''message'' (''Value error, '' @ msg))
      | Inl e \<Rightarrow> Inl e
      | Inr checked \<Rightarrow> Inr \<lparr>message = checked\<rparr>)"

text \<open>
  The cell \<open>try: Response(message=v) except Exception as e: print(e)\<close>; the result is
  what the cell printed.
\<close>

definition moderation_cell :: "(string \<Rightarrow> moderation) \<Rightarrow> string \<Rightarrow> py_error list" where
  "moderation_cell client v =
     (case Response_init client v of Inl e \<Rightarrow> [e] | Inr response \<Rightarrow> [])"

section \<open>Classification (SpamPrediction)\<close>









section \<open>Properties of document segmentation\<close>

















section \<open>Properties of citation validation\<close>

lemma prefix_drop_slice:
  assumes "prefix q (drop a s)"
  shows "slice s (a, a + length q) = q" and "a \<le> length s \<Longrightarrow> a + length q \<le> length s"
proof -
  from assms obtain r where r: "drop a s = q @ r" by (auto simp: prefix_def)
  have "slice s (a, a + length q) = take (length q) (drop a s)"
    by (simp add: slice_def drop_take)
  with r show "slice s (a, a + length q) = q" by simp
  assume "a \<le> length s"
  moreover from r have "length (drop a s) = length q + length r" by simp
  ultimately show "a + length q \<le> length s" by simp
qed

lemma finditer_span:
  "span \<in> set (finditer q s pos) \<Longrightarrow>
     pos \<le> fst span \<and> snd span = fst span + length q \<and> snd span \<le> length s \<and> slice s span = q"
proof (induction q s pos rule: finditer.induct)
  case (1 q s pos)
  show ?case
  proof (cases "length s < pos")
    case True
    with "1.prems" show ?thesis by (simp add: finditer.simps)
  next
    case inside: False
    show ?thesis
    proof (cases "prefix q (drop pos s)")
      case True
      from "1.prems" inside True
      have "span = (pos, pos + length q) \<or>
            span \<in> set (finditer q s (if q = [] then pos + 1 else pos + length q))"
        by (subst (asm) finditer.simps) simp
      then show ?thesis
      proof
        assume "span = (pos, pos + length q)"
        with prefix_drop_slice [OF True] inside show ?thesis by simp
      next
        assume "span \<in> set (finditer q s (if q = [] then pos + 1 else pos + length q))"
        from "1.IH"(1) [OF inside True this] show ?thesis by (auto split: if_splits)
      qed
    next
      case False
      from "1.prems" inside False have "span \<in> set (finditer q s (pos + 1))"
        by (subst (asm) finditer.simps) simp
      from "1.IH"(2) [OF inside False this] show ?thesis by auto
    qed
  qed
qed

lemma finditer_empty_iff:
  "finditer q s pos = [] \<longleftrightarrow> \<not> (\<exists>k. pos \<le> k \<and> k \<le> length s \<and> prefix q (drop k s))"
proof (induction q s pos rule: finditer.induct)
  case (1 q s pos)
  show ?case
  proof (cases "length s < pos")
    case True
    then show ?thesis by (subst finditer.simps) auto
  next
    case inside: False
    show ?thesis
    proof (cases "prefix q (drop pos s)")
      case True
      with inside have "finditer q s pos \<noteq> []" by (subst finditer.simps) simp
      moreover from True inside have "\<exists>k. pos \<le> k \<and> k \<le> length s \<and> prefix q (drop k s)"
        by (intro exI [of _ pos]) simp
      ultimately show ?thesis by simp
    next
      case False
      with inside have "finditer q s pos = finditer q s (pos + 1)"
        by (subst finditer.simps) simp
      moreover have "(\<exists>k. pos \<le> k \<and> k \<le> length s \<and> prefix q (drop k s)) \<longleftrightarrow>
                     (\<exists>k. pos + 1 \<le> k \<and> k \<le> length s \<and> prefix q (drop k s))"
      proof
        assume "\<exists>k. pos \<le> k \<and> k \<le> length s \<and> prefix q (drop k s)"
        then obtain k where k: "pos \<le> k" "k \<le> length s" "prefix q (drop k s)" by blast
        with False have "k \<noteq> pos" by auto
        with k show "\<exists>k. pos + 1 \<le> k \<and> k \<le> length s \<and> prefix q (drop k s)"
          by (intro exI [of _ k]) simp
      next
        assume "\<exists>k. pos + 1 \<le> k \<and> k \<le> length s \<and> prefix q (drop k s)"
        then show "\<exists>k. pos \<le> k \<and> k \<le> length s \<and> prefix q (drop k s)"
          by (meson add_leD1)
      qed
      ultimately show ?thesis using "1.IH"(2) [OF inside False] by simp
    qed
  qed
qed

lemma finditer_covers:
  "pos \<le> k \<Longrightarrow> k \<le> length s \<Longrightarrow> prefix q (drop k s) \<Longrightarrow>
     \<exists>span \<in> set (finditer q s pos). fst span \<le> k \<and> (k = fst span \<or> k < snd span)"
proof (induction q s pos rule: finditer.induct)
  case (1 q s pos)
  from "1.prems" have inside: "\<not> length s < pos" by simp
  show ?case
  proof (cases "prefix q (drop pos s)")
    case True
    let ?next = "if q = [] then pos + 1 else pos + length q"
    have unfold: "finditer q s pos = (pos, pos + length q) # finditer q s ?next"
      using inside True by (subst finditer.simps) simp
    show ?thesis
    proof (cases "k = pos \<or> k < pos + length q")
      case True
      with "1.prems"(1) show ?thesis unfolding unfold by auto
    next
      case False
      with "1.prems"(1) have "?next \<le> k" by (auto split: if_splits)
      from "1.IH"(1) [OF inside True this "1.prems"(2,3)] show ?thesis
        unfolding unfold by auto
    qed
  next
    case False
    have unfold: "finditer q s pos = finditer q s (pos + 1)"
      using inside False by (subst finditer.simps) simp
    from False "1.prems" have "pos + 1 \<le> k" by (cases "k = pos") auto
    from "1.IH"(2) [OF inside False this "1.prems"(2,3)] show ?thesis
      unfolding unfold .
  qed
qed

lemma sublist_iff_prefix_drop:
  "sublist q s \<longleftrightarrow> (\<exists>k. k \<le> length s \<and> prefix q (drop k s))"
proof
  assume "sublist q s"
  then obtain ps ss where "s = ps @ q @ ss" by (auto simp: sublist_def)
  then have "length ps \<le> length s \<and> prefix q (drop (length ps) s)" by simp
  then show "\<exists>k. k \<le> length s \<and> prefix q (drop k s)" by blast
next
  assume "\<exists>k. k \<le> length s \<and> prefix q (drop k s)"
  then obtain k r where "drop k s = q @ r" by (auto simp: prefix_def)
  then have "s = take k s @ q @ r" by (metis append_take_drop_id)
  then show "sublist q s" unfolding sublist_def by blast
qed

lemma finditer_empty_sublist: "finditer q s 0 = [] \<longleftrightarrow> \<not> sublist q s"
  by (simp add: finditer_empty_iff sublist_iff_prefix_drop)


lemma get_spans_str:
  "get_spans quotes (PyStr s) = Inr (concat (map (\<lambda>q. finditer q s 0) quotes))"
  by (induction quotes) (simp_all add: get_span_def)

lemma sequence_slice_val:
  "sequence (map (slice_val (PyStr s)) spans) = Inr (map (slice s) spans)"
  by (induction spans) (simp_all add: slice_val_def)

lemma Fact_validate_sources_str:
  assumes "context_get d ''text_chunk'' = PyStr s"
  shows "Fact_validate_sources (Some d) f =
           Inr (f\<lparr>substring_quote :=
                    concat (map (\<lambda>q. map (slice s) (finditer q s 0)) (substring_quote f))\<rparr>)"
proof -
  have "map (slice s) (concat (map (\<lambda>q. finditer q s 0) (substring_quote f))) =
        concat (map (\<lambda>q. map (slice s) (finditer q s 0)) (substring_quote f))"
    by (simp add: map_concat comp_def)
  then show ?thesis
    using assms
    by (simp only: Fact_validate_sources_def get_spans_str sequence_slice_val
          option.case sum.case Let_def)
qed

lemma sequence_map_Inr: "sequence (map (\<lambda>x. Inr (g x)) xs) = Inr (map g xs)"
  by (induction xs) simp_all

lemma QuestionAnswer_validate_str:
  assumes "context_get d ''text_chunk'' = PyStr s"
  shows "QuestionAnswer_validate (Some d) qa =
           Inr (qa\<lparr>answer := filter (\<lambda>f. substring_quote f \<noteq> [])
                  (map (\<lambda>f. f\<lparr>substring_quote :=
                      concat (map (\<lambda>q. map (slice s) (finditer q s 0)) (substring_quote f))\<rparr>)
                     (answer qa))\<rparr>)"
proof -
  have "Fact_validate_sources (Some d) =
          (\<lambda>f. Inr (f\<lparr>substring_quote :=
                    concat (map (\<lambda>q. map (slice s) (finditer q s 0)) (substring_quote f))\<rparr>))"
    by (rule ext) (rule Fact_validate_sources_str [OF assms])
  then show ?thesis
    by (simp add: QuestionAnswer_validate_def QuestionAnswer_validate_sources_def sequence_map_Inr)
qed

lemma slices_of_quote:
  "set (map (slice s) (finditer q s 0)) = (if sublist q s then {q} else {})"
proof (cases "sublist q s")
  case True
  then have "finditer q s 0 \<noteq> []" by (simp add: finditer_empty_sublist)
  then obtain sp where sp: "sp \<in> set (finditer q s 0)" by (cases "finditer q s 0") auto
  have all: "slice s sp' = q" if "sp' \<in> set (finditer q s 0)" for sp'
    using finditer_span [OF that] by simp
  have "slice s ` set (finditer q s 0) = {q}"
  proof
    show "slice s ` set (finditer q s 0) \<subseteq> {q}" using all by auto
    show "{q} \<subseteq> slice s ` set (finditer q s 0)" using all [OF sp] sp by (auto simp: image_iff)
  qed
  with True show ?thesis by simp
next
  case False
  then show ?thesis by (simp add: finditer_empty_sublist)
qed

lemma verified_quotes_set:
  "set (concat (map (\<lambda>q. map (slice s) (finditer q s 0)) quotes)) =
     {q \<in> set quotes. sublist q s}"
proof -
  have "set (concat (map (\<lambda>q. map (slice s) (finditer q s 0)) quotes)) =
        (\<Union>q \<in> set quotes. set (map (slice s) (finditer q s 0)))"
    by simp
  also have "\<dots> = (\<Union>q \<in> set quotes. (if sublist q s then {q} else {}))"
    by (simp only: slices_of_quote)
  also have "\<dots> = {q \<in> set quotes. sublist q s}"
    by auto
  finally show ?thesis .
qed

text \<open>
  Claim C1. Under a validation context whose \<open>text_chunk\<close> is the string \<open>s\<close>, validating
  a fact replaces its quotes by the slices of \<open>s\<close> at the spans the literal search finds
  for each claimed quote, in order. Every such span is an occurrence of the quote in \<open>s\<close>;
  every occurrence of the quote is found, or begins inside a found one (the search reports
  no overlapping match); and the search finds none exactly when the quote does not occur
  in \<open>s\<close>. So the quotes kept are the claimed quotes that occur literally in \<open>s\<close>. Validating a question-answer
  validates its facts so and drops every fact left with no quote: every fact kept has at
  least one quote, and each of its quotes occurs in \<open>s\<close>.
\<close>

theorem validate_sources_keeps_literal_quotes:
  assumes "context_get d ''text_chunk'' = PyStr s"
  shows
    "Fact_validate_sources (Some d) f =
       Inr (f\<lparr>substring_quote :=
                concat (map (\<lambda>q. map (slice s) (finditer q s 0)) (substring_quote f))\<rparr>)
     \<and> (\<forall>span \<in> set (finditer q s 0).
           snd span = fst span + length q \<and> snd span \<le> length s \<and> slice s span = q)
     \<and> (finditer q s 0 = [] \<longleftrightarrow> \<not> sublist q s)
     \<and> (\<forall>k \<le> length s. prefix q (drop k s) \<longrightarrow>
           (\<exists>span \<in> set (finditer q s 0). fst span \<le> k \<and> (k = fst span \<or> k < snd span)))
     \<and> (Fact_validate_sources (Some d) f = Inr f' \<longrightarrow>
           set (substring_quote f') = {q \<in> set (substring_quote f). sublist q s})
     \<and> QuestionAnswer_validate (Some d) qa =
         Inr (qa\<lparr>answer := filter (\<lambda>f. substring_quote f \<noteq> [])
                (map (\<lambda>f. f\<lparr>substring_quote :=
                    concat (map (\<lambda>q. map (slice s) (finditer q s 0)) (substring_quote f))\<rparr>)
                   (answer qa))\<rparr>)
     \<and> (QuestionAnswer_validate (Some d) qa = Inr qa' \<longrightarrow>
           (\<forall>f' \<in> set (answer qa').
              substring_quote f' \<noteq> [] \<and> (\<forall>q \<in> set (substring_quote f'). sublist q s)))"
proof (intro conjI)
  show "Fact_validate_sources (Some d) f =
       Inr (f\<lparr>substring_quote :=
                concat (map (\<lambda>q. map (slice s) (finditer q s 0)) (substring_quote f))\<rparr>)"
    by (rule Fact_validate_sources_str [OF assms])
  show "\<forall>span \<in> set (finditer q s 0).
           snd span = fst span + length q \<and> snd span \<le> length s \<and> slice s span = q"
    using finditer_span by blast
  show "finditer q s 0 = [] \<longleftrightarrow> \<not> sublist q s"
    by (rule finditer_empty_sublist)
  show "\<forall>k \<le> length s. prefix q (drop k s) \<longrightarrow>
           (\<exists>span \<in> set (finditer q s 0). fst span \<le> k \<and> (k = fst span \<or> k < snd span))"
    using finditer_covers [of 0 _ s q] by blast
  show "Fact_validate_sources (Some d) f = Inr f' \<longrightarrow>
           set (substring_quote f') = {q \<in> set (substring_quote f). sublist q s}"
  proof
    assume "Fact_validate_sources (Some d) f = Inr f'"
    then have "substring_quote f' =
        concat (map (\<lambda>q. map (slice s) (finditer q s 0)) (substring_quote f))"
      unfolding Fact_validate_sources_str [OF assms] by auto
    then show "set (substring_quote f') = {q \<in> set (substring_quote f). sublist q s}"
      by (simp only: verified_quotes_set)
  qed
  show "QuestionAnswer_validate (Some d) qa =
         Inr (qa\<lparr>answer := filter (\<lambda>f. substring_quote f \<noteq> [])
                (map (\<lambda>f. f\<lparr>substring_quote :=
                    concat (map (\<lambda>q. map (slice s) (finditer q s 0)) (substring_quote f))\<rparr>)
                   (answer qa))\<rparr>)"
    by (rule QuestionAnswer_validate_str [OF assms])
  show "QuestionAnswer_validate (Some d) qa = Inr qa' \<longrightarrow>
           (\<forall>f' \<in> set (answer qa').
              substring_quote f' \<noteq> [] \<and> (\<forall>q \<in> set (substring_quote f'). sublist q s))"
  proof (intro impI ballI)
    fix f'
    assume v: "QuestionAnswer_validate (Some d) qa = Inr qa'" and f': "f' \<in> set (answer qa')"
    from v have "answer qa' = filter (\<lambda>f. substring_quote f \<noteq> [])
                (map (\<lambda>f. f\<lparr>substring_quote :=
                    concat (map (\<lambda>q. map (slice s) (finditer q s 0)) (substring_quote f))\<rparr>)
                   (answer qa))"
      unfolding QuestionAnswer_validate_str [OF assms] by auto
    with f' have ne: "substring_quote f' \<noteq> []"
      and "f' \<in> (\<lambda>f. f\<lparr>substring_quote :=
                    concat (map (\<lambda>q. map (slice s) (finditer q s 0)) (substring_quote f))\<rparr>)
                  ` set (answer qa)"
      by simp_all
    then obtain f0 where "f' = f0\<lparr>substring_quote :=
                    concat (map (\<lambda>q. map (slice s) (finditer q s 0)) (substring_quote f0))\<rparr>"
      by blast
    then have eq: "substring_quote f' =
        concat (map (\<lambda>q. map (slice s) (finditer q s 0)) (substring_quote f0))"
      by simp
    have "set (substring_quote f') = {q \<in> set (substring_quote f0). sublist q s}"
      unfolding eq by (rule verified_quotes_set)
    with ne show "substring_quote f' \<noteq> [] \<and> (\<forall>q \<in> set (substring_quote f'). sublist q s)"
      by auto
  qed
qed


theorem validate_sources_keeps_literal_quotes_witness:
  "context_get [(''text_chunk'', PyStr ''abcabc'')] ''text_chunk'' = PyStr ''abcabc''
   \<and> Fact_validate_sources (Some [(''text_chunk'', PyStr ''abcabc'')])
         \<lparr>fact = ''f1'', substring_quote = [''abc'', ''xyz'']\<rparr> =
       Inr \<lparr>fact = ''f1'', substring_quote = [''abc'', ''abc'']\<rparr>
   \<and> QuestionAnswer_validate (Some [(''text_chunk'', PyStr ''abcabc'')])
         \<lparr>question = ''q'',
          answer = [\<lparr>fact = ''f1'', substring_quote = [''abc'', ''xyz'']\<rparr>,
                    \<lparr>fact = ''f2'', substring_quote = [''zzz'']\<rparr>]\<rparr> =
       Inr \<lparr>question = ''q'', answer = [\<lparr>fact = ''f1'', substring_quote = [''abc'', ''abc'']\<rparr>]\<rparr>
   \<and> sublist ''abc'' ''abcabc'' \<and> \<not> sublist ''xyz'' ''abcabc''"
proof -
  have h: "context_get [(''text_chunk'', PyStr ''abcabc'')] ''text_chunk'' = PyStr ''abcabc''"
    by (simp add: context_get_def)
  have e1: "finditer ''abc'' ''abcabc'' 0 = [(0, 3), (3, 6)]" by code_simp
  have e2: "finditer ''xyz'' ''abcabc'' 0 = []" by code_simp
  have e3: "finditer ''zzz'' ''abcabc'' 0 = []" by code_simp
  have s1: "slice ''abcabc'' (0, 3) = ''abc''" by (simp add: slice_def)
  have s2: "slice ''abcabc'' (3, 6) = ''abc''" by code_simp
  have s3: "sublist ''abc'' ''abcabc''" "\<not> sublist ''xyz'' ''abcabc''" by code_simp+
  note t = validate_sources_keeps_literal_quotes [OF h,
        of "\<lparr>fact = ''f1'', substring_quote = [''abc'', ''xyz'']\<rparr>" "''abc''"
           "\<lparr>fact = ''f1'', substring_quote = [''abc'', ''abc'']\<rparr>"
           "\<lparr>question = ''q'',
             answer = [\<lparr>fact = ''f1'', substring_quote = [''abc'', ''xyz'']\<rparr>,
                       \<lparr>fact = ''f2'', substring_quote = [''zzz'']\<rparr>]\<rparr>"
           "\<lparr>question = ''q'', answer = [\<lparr>fact = ''f1'', substring_quote = [''abc'', ''abc'']\<rparr>]\<rparr>"]
  from t have "Fact_validate_sources (Some [(''text_chunk'', PyStr ''abcabc'')])
         \<lparr>fact = ''f1'', substring_quote = [''abc'', ''xyz'']\<rparr> =
       Inr (\<lparr>fact = ''f1'', substring_quote = [''abc'', ''xyz'']\<rparr>\<lparr>substring_quote :=
                concat (map (\<lambda>q. map (slice ''abcabc'') (finditer q ''abcabc'' 0))
                  (substring_quote \<lparr>fact = ''f1'', substring_quote = [''abc'', ''xyz'']\<rparr>))\<rparr>)"
    by blast
  then have a: "Fact_validate_sources (Some [(''text_chunk'', PyStr ''abcabc'')])
         \<lparr>fact = ''f1'', substring_quote = [''abc'', ''xyz'']\<rparr> =
       Inr \<lparr>fact = ''f1'', substring_quote = [''abc'', ''abc'']\<rparr>"
    by (simp add: e1 e2 s1 s2)
  from t have "QuestionAnswer_validate (Some [(''text_chunk'', PyStr ''abcabc'')])
         \<lparr>question = ''q'',
          answer = [\<lparr>fact = ''f1'', substring_quote = [''abc'', ''xyz'']\<rparr>,
                    \<lparr>fact = ''f2'', substring_quote = [''zzz'']\<rparr>]\<rparr> =
       Inr (\<lparr>question = ''q'',
          answer = [\<lparr>fact = ''f1'', substring_quote = [''abc'', ''xyz'']\<rparr>,
                    \<lparr>fact = ''f2'', substring_quote = [''zzz'']\<rparr>]\<rparr>\<lparr>answer :=
              filter (\<lambda>f. substring_quote f \<noteq> [])
                (map (\<lambda>f. f\<lparr>substring_quote :=
                    concat (map (\<lambda>q. map (slice ''abcabc'') (finditer q ''abcabc'' 0)) (substring_quote f))\<rparr>)
                   (answer \<lparr>question = ''q'',
          answer = [\<lparr>fact = ''f1'', substring_quote = [''abc'', ''xyz'']\<rparr>,
                    \<lparr>fact = ''f2'', substring_quote = [''zzz'']\<rparr>]\<rparr>))\<rparr>)"
    by blast
  then have b: "QuestionAnswer_validate (Some [(''text_chunk'', PyStr ''abcabc'')])
         \<lparr>question = ''q'',
          answer = [\<lparr>fact = ''f1'', substring_quote = [''abc'', ''xyz'']\<rparr>,
                    \<lparr>fact = ''f2'', substring_quote = [''zzz'']\<rparr>]\<rparr> =
       Inr \<lparr>question = ''q'', answer = [\<lparr>fact = ''f1'', substring_quote = [''abc'', ''abc'']\<rparr>]\<rparr>"
    by (simp add: e1 e2 e3 s1 s2)
  from h a b s3 show ?thesis by blast
qed

lemma get_spans_not_str:
  assumes "\<forall>s. v \<noteq> PyStr s" and "quotes \<noteq> []"
  shows "get_spans quotes v = Inl TypeError"
proof -
  from assms(2) obtain q rest where "quotes = q # rest" by (cases quotes) auto
  moreover from assms(1) have "get_span q v = Inl TypeError"
    by (cases v) (simp_all add: get_span_def)
  ultimately show ?thesis by simp
qed

lemma sequence_raises:
  assumes "x \<in> set xs" and "\<forall>y \<in> set xs. y = Inl e \<or> (\<exists>v. y = Inr v)" and "x = Inl e"
  shows "sequence xs = Inl e"
  using assms
proof (induction xs)
  case Nil
  then show ?case by simp
next
  case (Cons y ys)
  show ?case
  proof (cases y)
    case (Inl e')
    with Cons.prems(2) have "e' = e" by auto
    with Inl show ?thesis by simp
  next
    case (Inr v)
    with Cons.prems have "x \<in> set ys" by auto
    with Cons.IH Cons.prems have "sequence ys = Inl e" by auto
    with Inr show ?thesis by simp
  qed
qed

lemma Fact_validate_sources_not_str:
  assumes "\<forall>s. context_get d ''text_chunk'' \<noteq> PyStr s"
  shows "Fact_validate_sources (Some d) f = (if substring_quote f = [] then Inr f else Inl TypeError)"
proof (cases "substring_quote f = []")
  case True
  then show ?thesis by (simp add: Fact_validate_sources_def)
next
  case False
  with assms show ?thesis by (simp add: Fact_validate_sources_def get_spans_not_str)
qed

text \<open>
  Claim C9, as amended. Validating a fact with no validation context raises
  \<open>AttributeError\<close>, and so does validating a question-answer that has a fact. Under a
  context whose \<open>text_chunk\<close> is missing or not a string, a fact that claims at least one
  quote raises \<open>TypeError\<close> (and so does a question-answer holding such a fact), while a
  fact with no claimed quote validates unchanged. Under a context that supplies a
  \<open>text_chunk\<close> string, validation succeeds.
\<close>

theorem validate_sources_without_text_chunk:
  "Fact_validate_sources None f = Inl AttributeError
   \<and> (answer qa \<noteq> [] \<longrightarrow> QuestionAnswer_validate None qa = Inl AttributeError)
   \<and> ((\<forall>s. context_get d ''text_chunk'' \<noteq> PyStr s) \<and> substring_quote f \<noteq> [] \<longrightarrow>
        Fact_validate_sources (Some d) f = Inl TypeError)
   \<and> ((\<forall>s. context_get d ''text_chunk'' \<noteq> PyStr s) \<and> substring_quote f = [] \<longrightarrow>
        Fact_validate_sources (Some d) f = Inr f)
   \<and> ((\<forall>s. context_get d ''text_chunk'' \<noteq> PyStr s) \<and>
        (\<exists>f \<in> set (answer qa). substring_quote f \<noteq> []) \<longrightarrow>
        QuestionAnswer_validate (Some d) qa = Inl TypeError)
   \<and> (context_get d ''text_chunk'' = PyStr s \<longrightarrow>
        (\<exists>f'. Fact_validate_sources (Some d) f = Inr f') \<and>
        (\<exists>qa'. QuestionAnswer_validate (Some d) qa = Inr qa'))"
proof (intro conjI impI)
  show "Fact_validate_sources None f = Inl AttributeError"
    by (simp add: Fact_validate_sources_def)
  show "QuestionAnswer_validate None qa = Inl AttributeError" if "answer qa \<noteq> []"
  proof -
    from that obtain f0 fs where "answer qa = f0 # fs" by (cases "answer qa") auto
    then show ?thesis by (simp add: QuestionAnswer_validate_def Fact_validate_sources_def)
  qed
  show "Fact_validate_sources (Some d) f = Inl TypeError"
    if "(\<forall>s. context_get d ''text_chunk'' \<noteq> PyStr s) \<and> substring_quote f \<noteq> []"
    using that by (simp add: Fact_validate_sources_not_str)
  show "Fact_validate_sources (Some d) f = Inr f"
    if "(\<forall>s. context_get d ''text_chunk'' \<noteq> PyStr s) \<and> substring_quote f = []"
    using that by (simp add: Fact_validate_sources_not_str)
  show "QuestionAnswer_validate (Some d) qa = Inl TypeError"
    if h: "(\<forall>s. context_get d ''text_chunk'' \<noteq> PyStr s) \<and>
        (\<exists>f \<in> set (answer qa). substring_quote f \<noteq> [])"
  proof -
    from h obtain f0 where f0: "f0 \<in> set (answer qa)" "substring_quote f0 \<noteq> []" by blast
    from h have all: "Fact_validate_sources (Some d) g =
        (if substring_quote g = [] then Inr g else Inl TypeError)" for g
      by (simp add: Fact_validate_sources_not_str)
    have "sequence (map (Fact_validate_sources (Some d)) (answer qa)) = Inl TypeError"
    proof (rule sequence_raises [where x = "Fact_validate_sources (Some d) f0"])
      show "Fact_validate_sources (Some d) f0 \<in> set (map (Fact_validate_sources (Some d)) (answer qa))"
        using f0 by simp
      show "\<forall>y \<in> set (map (Fact_validate_sources (Some d)) (answer qa)).
              y = Inl TypeError \<or> (\<exists>v. y = Inr v)"
        by (auto simp: all)
      show "Fact_validate_sources (Some d) f0 = Inl TypeError"
        using f0 by (simp add: all)
    qed
    then show ?thesis by (simp add: QuestionAnswer_validate_def)
  qed
  show "\<exists>f'. Fact_validate_sources (Some d) f = Inr f'" if "context_get d ''text_chunk'' = PyStr s"
    using Fact_validate_sources_str [OF that] by blast
  show "\<exists>qa'. QuestionAnswer_validate (Some d) qa = Inr qa'" if "context_get d ''text_chunk'' = PyStr s"
    using QuestionAnswer_validate_str [OF that] by blast
qed

text \<open>
  The claim as first stated fails: under the empty context dictionary, which supplies no
  \<open>text_chunk\<close>, a fact with no claimed quote validates, and so does the question-answer
  that contains it.
\<close>

theorem validate_sources_without_text_chunk_counterexample:
  "context_get [] ''text_chunk'' = PyNone
   \<and> Fact_validate_sources (Some []) \<lparr>fact = ''x'', substring_quote = []\<rparr> =
       Inr \<lparr>fact = ''x'', substring_quote = []\<rparr>
   \<and> QuestionAnswer_validate (Some [])
         \<lparr>question = ''q'', answer = [\<lparr>fact = ''x'', substring_quote = []\<rparr>]\<rparr> =
       Inr \<lparr>question = ''q'', answer = []\<rparr>"
  by (simp add: context_get_def Fact_validate_sources_def QuestionAnswer_validate_def
        QuestionAnswer_validate_sources_def)

theorem validate_sources_without_text_chunk_witness:
  "Fact_validate_sources None \<lparr>fact = ''x'', substring_quote = [''abc'']\<rparr> = Inl AttributeError
   \<and> QuestionAnswer_validate None
        \<lparr>question = ''q'', answer = [\<lparr>fact = ''x'', substring_quote = [''abc'']\<rparr>]\<rparr> =
       Inl AttributeError
   \<and> context_get [(''other'', PyInt 1)] ''text_chunk'' = PyNone
   \<and> Fact_validate_sources (Some [(''other'', PyInt 1)])
        \<lparr>fact = ''x'', substring_quote = [''abc'']\<rparr> = Inl TypeError
   \<and> QuestionAnswer_validate (Some [(''other'', PyInt 1)])
        \<lparr>question = ''q'', answer = [\<lparr>fact = ''x'', substring_quote = [''abc'']\<rparr>]\<rparr> =
       Inl TypeError
   \<and> Fact_validate_sources (Some [(''other'', PyInt 1)])
        \<lparr>fact = ''y'', substring_quote = []\<rparr> = Inr \<lparr>fact = ''y'', substring_quote = []\<rparr>
   \<and> context_get [(''text_chunk'', PyStr ''abc'')] ''text_chunk'' = PyStr ''abc''
   \<and> Fact_validate_sources (Some [(''text_chunk'', PyStr ''abc'')])
        \<lparr>fact = ''x'', substring_quote = [''abc'']\<rparr> =
       Inr \<lparr>fact = ''x'', substring_quote = [''abc'']\<rparr>"
proof -
  have n: "context_get [(''other'', PyInt 1)] ''text_chunk'' = PyNone"
    by (simp add: context_get_def)
  have y: "context_get [(''text_chunk'', PyStr ''abc'')] ''text_chunk'' = PyStr ''abc''"
    by (simp add: context_get_def)
  have e: "finditer ''abc'' ''abc'' 0 = [(0, 3)]" by code_simp
  have ok: "Fact_validate_sources (Some [(''text_chunk'', PyStr ''abc'')])
        \<lparr>fact = ''x'', substring_quote = [''abc'']\<rparr> =
       Inr \<lparr>fact = ''x'', substring_quote = [''abc'']\<rparr>"
    by (simp add: Fact_validate_sources_def y get_span_def e slice_val_def slice_def)
  note a = validate_sources_without_text_chunk
      [of "\<lparr>fact = ''x'', substring_quote = [''abc'']\<rparr>"
          "\<lparr>question = ''q'', answer = [\<lparr>fact = ''x'', substring_quote = [''abc'']\<rparr>]\<rparr>"
          "[(''other'', PyInt 1)]"]
  note b = validate_sources_without_text_chunk
      [of "\<lparr>fact = ''y'', substring_quote = []\<rparr>" _ "[(''other'', PyInt 1)]"]
  show ?thesis using a b by (simp add: n y ok)
qed

section \<open>Properties of PII scrubbing\<close>












section \<open>Properties of the dependency graphs\<close>










section \<open>Properties of the knowledge graph update\<close>

lemma set_fold_set_add: "set (fold set_add xs acc) = set acc \<union> set xs"
  by (induction xs arbitrary: acc) (auto simp: set_add_def)

lemma distinct_fold_set_add: "distinct acc \<Longrightarrow> distinct (fold set_add xs acc)"
  by (induction xs arbitrary: acc) (auto simp: set_add_def)

lemma set_py_set: "set (py_set xs) = set xs"
  by (simp add: py_set_def set_fold_set_add)

lemma distinct_py_set: "distinct (py_set xs)"
  by (simp add: py_set_def distinct_fold_set_add)

lemma set_list_of_set:
  assumes "rearranges order"
  shows "set (list_of_set order (py_set xs)) = set xs"
proof -
  from assms have "mset (order (py_set xs)) = mset (py_set xs)" by (simp add: rearranges_def)
  then have "set (order (py_set xs)) = set (py_set xs)" by (rule mset_eq_setD)
  then show ?thesis by (simp add: list_of_set_def set_py_set)
qed

lemma distinct_list_of_set:
  assumes "rearranges order"
  shows "distinct (list_of_set order (py_set xs))"
proof -
  from assms have "mset (order (py_set xs)) = mset (py_set xs)" by (simp add: rearranges_def)
  then have "distinct (order (py_set xs)) = distinct (py_set xs)" by (rule mset_eq_imp_distinct_iff)
  then show ?thesis by (simp add: list_of_set_def distinct_py_set)
qed

text \<open>
  Claim C5. For every two knowledge graphs, and whatever order the hash sets give their
  members in, the nodes of \<open>g.update(h)\<close> are as a set the union of the nodes of \<open>g\<close>
  and \<open>h\<close>, without duplicates, and likewise the edges. So \<open>update\<close> is commutative
  and idempotent up to the sets of nodes and edges. Nothing is said about the order of the
  lists: the statement holds for every rearrangement.
\<close>

theorem update_is_set_union:
  assumes "rearranges node_order" and "rearranges edge_order"
  shows "set (nodes (update node_order edge_order g h)) = set (nodes g) \<union> set (nodes h)
     \<and> set (edges (update node_order edge_order g h)) = set (edges g) \<union> set (edges h)
     \<and> distinct (nodes (update node_order edge_order g h))
     \<and> distinct (edges (update node_order edge_order g h))
     \<and> set (nodes (update node_order edge_order g h)) = set (nodes (update node_order edge_order h g))
     \<and> set (edges (update node_order edge_order g h)) = set (edges (update node_order edge_order h g))
     \<and> set (nodes (update node_order edge_order g g)) = set (nodes g)
     \<and> set (edges (update node_order edge_order g g)) = set (edges g)
     \<and> set (nodes (update node_order edge_order (update node_order edge_order g h) h)) =
         set (nodes (update node_order edge_order g h))
     \<and> set (edges (update node_order edge_order (update node_order edge_order g h) h)) =
         set (edges (update node_order edge_order g h))"
  using assms
  by (auto simp: update_def set_list_of_set distinct_list_of_set)

theorem update_is_set_union_witness:
  "rearranges (rev :: Node list \<Rightarrow> Node list) \<and> rearranges (\<lambda>xs :: Edge list. xs)
   \<and> set (nodes (update rev (\<lambda>xs. xs)
        \<lparr>nodes = [\<lparr>node_id = 1, node_label = ''a'', node_color = ''red''\<rparr>,
                   \<lparr>node_id = 2, node_label = ''b'', node_color = ''red''\<rparr>],
          edges = [\<lparr>source = 1, target = 2, edge_label = ''e'', edge_color = ''black''\<rparr>]\<rparr>
        \<lparr>nodes = [\<lparr>node_id = 2, node_label = ''b'', node_color = ''red''\<rparr>,
                   \<lparr>node_id = 3, node_label = ''c'', node_color = ''red''\<rparr>],
          edges = [\<lparr>source = 1, target = 2, edge_label = ''e'', edge_color = ''black''\<rparr>]\<rparr>)) =
       {\<lparr>node_id = 1, node_label = ''a'', node_color = ''red''\<rparr>,
        \<lparr>node_id = 2, node_label = ''b'', node_color = ''red''\<rparr>,
        \<lparr>node_id = 3, node_label = ''c'', node_color = ''red''\<rparr>}
   \<and> nodes (update rev (\<lambda>xs. xs)
        \<lparr>nodes = [\<lparr>node_id = 1, node_label = ''a'', node_color = ''red''\<rparr>,
                   \<lparr>node_id = 2, node_label = ''b'', node_color = ''red''\<rparr>],
          edges = [\<lparr>source = 1, target = 2, edge_label = ''e'', edge_color = ''black''\<rparr>]\<rparr>
        \<lparr>nodes = [\<lparr>node_id = 2, node_label = ''b'', node_color = ''red''\<rparr>,
                   \<lparr>node_id = 3, node_label = ''c'', node_color = ''red''\<rparr>],
          edges = [\<lparr>source = 1, target = 2, edge_label = ''e'', edge_color = ''black''\<rparr>]\<rparr>) =
       [\<lparr>node_id = 3, node_label = ''c'', node_color = ''red''\<rparr>,
        \<lparr>node_id = 2, node_label = ''b'', node_color = ''red''\<rparr>,
        \<lparr>node_id = 1, node_label = ''a'', node_color = ''red''\<rparr>]
   \<and> edges (update rev (\<lambda>xs. xs)
        \<lparr>nodes = [\<lparr>node_id = 1, node_label = ''a'', node_color = ''red''\<rparr>,
                   \<lparr>node_id = 2, node_label = ''b'', node_color = ''red''\<rparr>],
          edges = [\<lparr>source = 1, target = 2, edge_label = ''e'', edge_color = ''black''\<rparr>]\<rparr>
        \<lparr>nodes = [\<lparr>node_id = 2, node_label = ''b'', node_color = ''red''\<rparr>,
                   \<lparr>node_id = 3, node_label = ''c'', node_color = ''red''\<rparr>],
          edges = [\<lparr>source = 1, target = 2, edge_label = ''e'', edge_color = ''black''\<rparr>]\<rparr>) =
       [\<lparr>source = 1, target = 2, edge_label = ''e'', edge_color = ''black''\<rparr>]"
proof -
  have r1: "rearranges (rev :: Node list \<Rightarrow> Node list)" by (simp add: rearranges_def)
  have r2: "rearranges (\<lambda>xs :: Edge list. xs)" by (simp add: rearranges_def)
  note t = update_is_set_union [OF r1 r2,
      of "\<lparr>nodes = [\<lparr>node_id = 1, node_label = ''a'', node_color = ''red''\<rparr>,
                   \<lparr>node_id = 2, node_label = ''b'', node_color = ''red''\<rparr>],
          edges = [\<lparr>source = 1, target = 2, edge_label = ''e'', edge_color = ''black''\<rparr>]\<rparr>"
         "\<lparr>nodes = [\<lparr>node_id = 2, node_label = ''b'', node_color = ''red''\<rparr>,
                   \<lparr>node_id = 3, node_label = ''c'', node_color = ''red''\<rparr>],
          edges = [\<lparr>source = 1, target = 2, edge_label = ''e'', edge_color = ''black''\<rparr>]\<rparr>"]
  from t have s: "set (nodes (update rev (\<lambda>xs. xs)
        \<lparr>nodes = [\<lparr>node_id = 1, node_label = ''a'', node_color = ''red''\<rparr>,
                   \<lparr>node_id = 2, node_label = ''b'', node_color = ''red''\<rparr>],
          edges = [\<lparr>source = 1, target = 2, edge_label = ''e'', edge_color = ''black''\<rparr>]\<rparr>
        \<lparr>nodes = [\<lparr>node_id = 2, node_label = ''b'', node_color = ''red''\<rparr>,
                   \<lparr>node_id = 3, node_label = ''c'', node_color = ''red''\<rparr>],
          edges = [\<lparr>source = 1, target = 2, edge_label = ''e'', edge_color = ''black''\<rparr>]\<rparr>)) =
       {\<lparr>node_id = 1, node_label = ''a'', node_color = ''red''\<rparr>,
        \<lparr>node_id = 2, node_label = ''b'', node_color = ''red''\<rparr>,
        \<lparr>node_id = 3, node_label = ''c'', node_color = ''red''\<rparr>}"
    by auto
  show ?thesis
    apply (intro conjI r1 r2 s)
    apply (simp_all add: update_def list_of_set_def py_set_def set_add_def)
    done
qed

section \<open>Properties of moderation\<close>

lemma openai_moderation_cases:
  "openai_moderation client v =
     (if flagged (client v)
      then Inl (ValueError (''`'' @ v @ ''` was flagged for '' @
                  join '', '' (map fst (filter snd (categories (client v))))))
      else Inr v)"
  by (simp add: openai_moderation_def Let_def)

lemma Response_init_cases:
  "Response_init client v =
     (if flagged (client v)
      then Inl (ValidationError ''message''
             (''Value error, '' @ ''`'' @ v @ ''` was flagged for '' @
                join '', '' (map fst (filter snd (categories (client v))))))
      else Inr \<lparr>message = v\<rparr>)"
  by (simp add: Response_init_def openai_moderation_cases)

text \<open>
  Claim C6. Constructing a \<open>Response\<close> from a message string raises a validation error
  exactly when the moderation check flags the message, and the error message names the
  flagged categories; a message that is not flagged is stored unchanged. The notebook cell
  prints the exception that was raised and does nothing else; without an exception it
  prints nothing.
\<close>

theorem Response_raises_iff_flagged:
  "((\<exists>e. Response_init client v = Inl e) \<longleftrightarrow> flagged (client v))
   \<and> (flagged (client v) \<longrightarrow>
        Response_init client v =
          Inl (ValidationError ''message''
             (''Value error, '' @ ''`'' @ v @ ''` was flagged for '' @
                join '', '' (map fst (filter snd (categories (client v)))))))
   \<and> (\<not> flagged (client v) \<longrightarrow> Response_init client v = Inr \<lparr>message = v\<rparr>)
   \<and> (Response_init client v = Inl e \<longrightarrow> moderation_cell client v = [e])
   \<and> (Response_init client v = Inr r \<longrightarrow> moderation_cell client v = [])"
  by (simp add: Response_init_cases moderation_cell_def)

theorem Response_raises_iff_flagged_witness:
  "flagged ((\<lambda>v. \<lparr>flagged = (v = ''bad''),
                   categories = [(''hate'', False), (''violence'', v = ''bad'')]\<rparr>) ''bad'')
   \<and> Response_init (\<lambda>v. \<lparr>flagged = (v = ''bad''),
                   categories = [(''hate'', False), (''violence'', v = ''bad'')]\<rparr>) ''bad'' =
       Inl (ValidationError ''message'' ''Value error, `bad` was flagged for violence'')
   \<and> moderation_cell (\<lambda>v. \<lparr>flagged = (v = ''bad''),
                   categories = [(''hate'', False), (''violence'', v = ''bad'')]\<rparr>) ''bad'' =
       [ValidationError ''message'' ''Value error, `bad` was flagged for violence'']
   \<and> \<not> flagged ((\<lambda>v. \<lparr>flagged = (v = ''bad''),
                   categories = [(''hate'', False), (''violence'', v = ''bad'')]\<rparr>) ''fine'')
   \<and> Response_init (\<lambda>v. \<lparr>flagged = (v = ''bad''),
                   categories = [(''hate'', False), (''violence'', v = ''bad'')]\<rparr>) ''fine'' =
       Inr \<lparr>message = ''fine''\<rparr>
   \<and> moderation_cell (\<lambda>v. \<lparr>flagged = (v = ''bad''),
                   categories = [(''hate'', False), (''violence'', v = ''bad'')]\<rparr>) ''fine'' = []"
proof -
  define client where "client = (\<lambda>v. \<lparr>flagged = (v = ''bad''),
                   categories = [(''hate'', False), (''violence'', v = ''bad'')]\<rparr>)"
  have f1: "flagged (client ''bad'')" and f2: "\<not> flagged (client ''fine'')"
    by (simp_all add: client_def)
  have c: "join '', '' (map fst (filter snd (categories (client ''bad'')))) = ''violence''"
    by (simp add: client_def)
  note a = Response_raises_iff_flagged [of client "''bad''"
      "ValidationError ''message'' ''Value error, `bad` was flagged for violence''"]
  note b = Response_raises_iff_flagged [of client "''fine''" _ "\<lparr>message = ''fine''\<rparr>"]
  from a f1 c have a1: "Response_init client ''bad'' =
       Inl (ValidationError ''message'' ''Value error, `bad` was flagged for violence'')"
    by simp
  with a have a2: "moderation_cell client ''bad'' =
       [ValidationError ''message'' ''Value error, `bad` was flagged for violence'']"
    by blast
  from b f2 have b1: "Response_init client ''fine'' = Inr \<lparr>message = ''fine''\<rparr>" by blast
  with b have b2: "moderation_cell client ''fine'' = []" by blast
  from f1 a1 a2 f2 b1 b2 show ?thesis unfolding client_def by blast
qed


section \<open>Properties of classification\<close>


end
